theory Spec2Isabelle
  imports Main
begin

section \<open>JavaScript strings as the scripts use them\<close>

text \<open>
  A \<^typ>\<open>string\<close> is a list of code units; each \<^typ>\<open>char\<close> stands for one
  code unit in the range 0 to 255. An optional value (\<open>undefined\<close> in the scripts) is an
  \<^typ>\<open>'a option\<close>.
\<close>

definition truthy :: "string option \<Rightarrow> bool" where
  \<comment> \<open>JavaScript truthiness of an optional string: \<open>undefined\<close> and \<open>""\<close> are falsy.\<close>
  "truthy v = (case v of None \<Rightarrow> False | Some s \<Rightarrow> s \<noteq> [])"

definition lowerChar :: "char \<Rightarrow> char" where
  \<comment> \<open>\<open>String.prototype.toLowerCase\<close> on one code unit below 256: the letters A to Z
      and the accented capitals 192 to 222 (215, the multiplication sign, apart) move up
      by 32; every other code unit stays.\<close>
  "lowerChar c =
     (let n = (of_char c :: nat) in
      if (65 \<le> n \<and> n \<le> 90) \<or> (192 \<le> n \<and> n \<le> 222 \<and> n \<noteq> 215)
      then char_of (n + 32) else c)"

definition toLowerCase :: "string \<Rightarrow> string" where
  "toLowerCase s = map lowerChar s"

definition isWhiteSpace :: "char \<Rightarrow> bool" where
  \<comment> \<open>White space and line terminators of ECMAScript below code unit 256: what
      \<open>trim\<close> strips and what \<open>\s\<close> matches.\<close>
  "isWhiteSpace c = ((of_char c :: nat) \<in> {9, 10, 11, 12, 13, 32, 160})"

definition trim :: "string \<Rightarrow> string" where
  "trim s = rev (dropWhile isWhiteSpace (rev (dropWhile isWhiteSpace s)))"

definition digitChar :: "nat \<Rightarrow> char" where
  "digitChar d = char_of (48 + d)"

function showNat :: "nat \<Rightarrow> string" where
  \<comment> \<open>The decimal rendering of a non-negative integer inside a template literal.\<close>
  "showNat n = (if n < 10 then [digitChar n] else showNat (n div 10) @ [digitChar (n mod 10)])"
  by pat_completeness auto
termination
  by (relation "measure (\<lambda>n. n)") auto

declare showNat.simps [simp del]

definition showName :: "string option \<Rightarrow> string" where
  \<comment> \<open>\<open>${fc.name}\<close>: an absent name is rendered as the word \<open>undefined\<close>.\<close>
  "showName n = (case n of None \<Rightarrow> ''undefined'' | Some s \<Rightarrow> s)"

section \<open>The approval prompt\<close>

datatype ToolConfirmationOutcome = ProceedOnce | ProceedAlwaysTool | Cancel

definition approvalOutcome :: "string \<Rightarrow> ToolConfirmationOutcome" where
  \<comment> \<open>Step 4, both versions: \<open>switch (response.toLowerCase())\<close> in \<open>onToolCallsUpdate\<close>.\<close>
  "approvalOutcome response =
     (let r = toLowerCase response in
      if r = ''y'' then ProceedOnce
      else if r = ''a'' then ProceedAlwaysTool
      else Cancel)"

definition confirm :: "string \<Rightarrow> bool" where
  \<comment> \<open>Step 5: \<open>confirm\<close>, the yes/no prompt.\<close>
  "confirm answer = (toLowerCase answer = ''y'' \<or> toLowerCase answer = ''yes'')"

definition confirmOutcome :: "string \<Rightarrow> ToolConfirmationOutcome" where
  \<comment> \<open>Step 5: the outcome \<open>onToolCallsUpdate\<close> passes to \<open>onConfirm\<close>.\<close>
  "confirmOutcome answer = (if confirm answer then ProceedOnce else Cancel)"

section \<open>Streamed replies and tool-call requests\<close>

type_synonym args = "(string \<times> string) list"

record function_call =
  fc_id :: "string option"
  fc_name :: "string option"
  fc_args :: "args option"

record function_response =
  fr_id :: "string option"
  fr_name :: "string option"
  fr_response :: "args option"

record part =
  part_text :: "string option"
  part_thought :: "bool option"
  part_functionCall :: "function_call option"
  part_functionResponse :: "function_response option"

text \<open>
  \<open>PartUnion\<close> is a part object or a string; the step-3 loop also tests for a null or
  undefined entry. \<open>PartListUnion\<close> is one such value or an array of them.
\<close>

datatype part_union = PStr string | PObj part | PNullish

datatype part_list_union = Single part_union | Many "part_union list"

record chunk =
  chunk_functionCalls :: "function_call list option"
  chunk_parts :: "part list option"

record request =
  req_callId :: string
  req_name :: "string option"
  req_args :: "args option"
  req_isClientInitiated :: "bool option"

record tool_response =
  tr_callId :: string
  tr_responseParts :: part_list_union
  tr_error :: "string option"

datatype status =
  Validating | Scheduled | AwaitingApproval | Executing | Success | Errored | Cancelled

record completed_call =
  cc_status :: status
  cc_request :: request
  cc_response :: "tool_response option"

text \<open>
  What a \<open>throw\<close> or a rejected promise carries: an \<open>Error\<close> object with its message
  (a \<open>TypeError\<close> apart), another value with its rendering by \<open>String\<close>, or
  \<open>undefined\<close> or \<open>null\<close>, of which no property can be read.
\<close>

datatype js_error = TypeError string | Error string | NonError string | ThrownNullish string

text \<open>
  The collaborators of the scripts, over a world \<open>'w\<close> they may change: the chat backend,
  the direct tool executor of step 3, the scheduler of step 4 seen from \<open>schedule\<close> to
  \<open>onAllToolCallsComplete\<close>, and the clock.
\<close>

record 'w env =
  sendMessageStream :: "part_union list \<Rightarrow> 'w \<Rightarrow> chunk list \<times> 'w"
  executeToolCall :: "request \<Rightarrow> 'w \<Rightarrow> tool_response \<times> 'w"
  schedule :: "request list \<Rightarrow> 'w \<Rightarrow> completed_call list \<times> 'w"
  dateNow :: "'w \<Rightarrow> nat \<times> 'w"

datatype event = Sent "part_union list" | Executed request | Batch "request list"

datatype outcome = Answered string | Threw js_error | OutOfRounds

definition textOf :: "string option \<Rightarrow> string" where
  "textOf v = (case v of None \<Rightarrow> [] | Some s \<Rightarrow> s)"

definition textPart :: "string \<Rightarrow> part" where
  \<comment> \<open>\<open>{ text: s }\<close>\<close>
  "textPart s = \<lparr>part_text = Some s, part_thought = None, part_functionCall = None,
     part_functionResponse = None\<rparr>"

subsection \<open>Call identifiers\<close>

definition generatedId :: "'w env \<Rightarrow> function_call \<Rightarrow> 'w \<Rightarrow> string \<times> 'w" where
  \<comment> \<open>\<open>`${fc.name}-${Date.now()}`\<close>\<close>
  "generatedId env fc w =
     (let (t, w') = dateNow env w in (showName (fc_name fc) @ ''-'' @ showNat t, w'))"

definition callIdNullish :: "'w env \<Rightarrow> function_call \<Rightarrow> 'w \<Rightarrow> string \<times> 'w" where
  \<comment> \<open>\<open>fc.id ?? `${fc.name}-${Date.now()}`\<close>: 03-tools.ts and both versions of step 4.\<close>
  "callIdNullish env fc w =
     (case fc_id fc of Some i \<Rightarrow> (i, w) | None \<Rightarrow> generatedId env fc w)"

definition callIdFalsy :: "'w env \<Rightarrow> function_call \<Rightarrow> 'w \<Rightarrow> string \<times> 'w" where
  \<comment> \<open>\<open>fc.id || `${fc.name}-${Date.now()}`\<close>: step 5 and the earlier step-3 script.\<close>
  "callIdFalsy env fc w =
     (if truthy (fc_id fc) then (textOf (fc_id fc), w) else generatedId env fc w)"

definition mkRequest3 :: "'w env \<Rightarrow> function_call \<Rightarrow> 'w \<Rightarrow> request \<times> 'w" where
  \<comment> \<open>03-tools.ts, lines 76 to 82; \<open>runDemo\<close> of step 4 builds the same object.\<close>
  "mkRequest3 env fc w =
     (let (cid, w') = callIdNullish env fc w in
      (\<lparr>req_callId = cid, req_name = fc_name fc,
        req_args = Some (case fc_args fc of None \<Rightarrow> [] | Some a \<Rightarrow> a),
        req_isClientInitiated = Some False\<rparr>, w'))"

definition mkRequest5 :: "'w env \<Rightarrow> function_call \<Rightarrow> 'w \<Rightarrow> request \<times> 'w" where
  \<comment> \<open>Step 5, \<open>sendStreamingMessage\<close>: name and args are passed on as they are.\<close>
  "mkRequest5 env fc w =
     (let (cid, w') = callIdFalsy env fc w in
      (\<lparr>req_callId = cid, req_name = fc_name fc, req_args = fc_args fc,
        req_isClientInitiated = None\<rparr>, w'))"

definition mkRequestOld3 :: "'w env \<Rightarrow> function_call \<Rightarrow> 'w \<Rightarrow> request \<times> 'w" where
  \<comment> \<open>The earlier step-3 script: \<open>fc.name || ''\<close>, \<open>fc.args || {}\<close>.\<close>
  "mkRequestOld3 env fc w =
     (let (cid, w') = callIdFalsy env fc w in
      (\<lparr>req_callId = cid,
        req_name = Some (if truthy (fc_name fc) then textOf (fc_name fc) else []),
        req_args = Some (case fc_args fc of None \<Rightarrow> [] | Some a \<Rightarrow> a),
        req_isClientInitiated = Some False\<rparr>, w'))"

fun mkRequests4 :: "'w env \<Rightarrow> function_call list \<Rightarrow> 'w \<Rightarrow> request list \<times> 'w" where
  \<comment> \<open>\<open>functionCalls.map(fc => ({...}))\<close> in \<open>runDemo\<close>.\<close>
  "mkRequests4 env [] w = ([], w)"
| "mkRequests4 env (fc # fcs) w =
     (let (r, w1) = mkRequest3 env fc w; (rs, w2) = mkRequests4 env fcs w1 in (r # rs, w2))"

subsection \<open>Step 3: \<open>runChatWithTool\<close>\<close>

record stream_acc =
  thinkingText :: string
  responseText :: string
  functionCalls :: "function_call list"

definition consumePart3 :: "stream_acc \<Rightarrow> part \<Rightarrow> stream_acc" where
  "consumePart3 acc p =
     (let acc1 =
        (if part_thought p = Some True \<and> truthy (part_text p)
         then acc\<lparr>thinkingText := thinkingText acc @ textOf (part_text p)\<rparr>
         else if truthy (part_text p)
         then acc\<lparr>responseText := responseText acc @ textOf (part_text p)\<rparr>
         else acc)
      in case part_functionCall p of
           Some fc \<Rightarrow> acc1\<lparr>functionCalls := functionCalls acc1 @ [fc]\<rparr>
         | None \<Rightarrow> acc1)"

definition consumeChunk3 :: "stream_acc \<Rightarrow> chunk \<Rightarrow> stream_acc" where
  "consumeChunk3 acc ch =
     (case chunk_parts ch of None \<Rightarrow> acc | Some ps \<Rightarrow> foldl consumePart3 acc ps)"

definition consumeStream3 :: "chunk list \<Rightarrow> stream_acc" where
  "consumeStream3 chunks =
     foldl consumeChunk3 \<lparr>thinkingText = [], responseText = [], functionCalls = []\<rparr> chunks"

fun truthyParts :: "part_list_union \<Rightarrow> bool" where
  \<comment> \<open>\<open>if (toolResponse.responseParts)\<close>: an array and an object are truthy.\<close>
  "truthyParts (Single PNullish) = False"
| "truthyParts (Single (PStr s)) = (s \<noteq> [])"
| "truthyParts (Single (PObj p)) = True"
| "truthyParts (Many ps) = True"

fun readOutput :: "part_list_union \<Rightarrow> js_error + string option" where
  \<comment> \<open>Line 92: \<open>(toolResponse.responseParts as any).functionResponse.response.output\<close>.
      An array and a string have no \<open>functionResponse\<close> property, so reading
      \<open>.response\<close> of it raises a TypeError (the engine's message is shortened here).\<close>
  "readOutput (Single (PObj p)) =
     (case part_functionResponse p of
        None \<Rightarrow> Inl (TypeError ''Cannot read properties of undefined'')
      | Some fr \<Rightarrow>
          (case fr_response fr of
             None \<Rightarrow> Inl (TypeError ''Cannot read properties of undefined'')
           | Some r \<Rightarrow> Inr (map_of r ''output'')))"
| "readOutput (Single (PStr s)) = Inl (TypeError ''Cannot read properties of undefined'')"
| "readOutput (Single PNullish) = Inl (TypeError ''Cannot read properties of undefined'')"
| "readOutput (Many ps) = Inl (TypeError ''Cannot read properties of undefined'')"

fun partsOf :: "part_list_union \<Rightarrow> part_union list" where
  \<comment> \<open>\<open>Array.isArray(x) ? x : [x]\<close>\<close>
  "partsOf (Many ps) = ps"
| "partsOf (Single p) = [p]"

fun pushPart3 :: "part list \<Rightarrow> part_union \<Rightarrow> part list" where
  \<comment> \<open>Lines 99 to 103.\<close>
  "pushPart3 acc (PStr s) = acc @ [textPart s]"
| "pushPart3 acc (PObj p) = acc @ [p]"
| "pushPart3 acc PNullish = acc"

definition collectResponse3 :: "part list \<Rightarrow> tool_response \<Rightarrow> js_error + part list" where
  \<comment> \<open>Lines 91 to 105, for one tool response.\<close>
  "collectResponse3 acc r =
     (if truthyParts (tr_responseParts r) then
        (case readOutput (tr_responseParts r) of
           Inl e \<Rightarrow> Inl e
         | Inr output \<Rightarrow> Inr (foldl pushPart3 acc (partsOf (tr_responseParts r))))
      else Inr acc)"

fun executeCalls3 ::
  "'w env \<Rightarrow> function_call list \<Rightarrow> part list \<Rightarrow> event list \<Rightarrow> 'w \<Rightarrow>
     (js_error + part list) \<times> event list \<times> 'w" where
  \<comment> \<open>Lines 75 to 106: \<open>for (const fc of functionCalls)\<close>.\<close>
  "executeCalls3 env [] acc tr w = (Inr acc, tr, w)"
| "executeCalls3 env (fc # fcs) acc tr w =
     (let (req, w1) = mkRequest3 env fc w;
          (resp, w2) = executeToolCall env req w1
      in case collectResponse3 acc resp of
           Inl e \<Rightarrow> (Inl e, tr @ [Executed req], w2)
         | Inr acc' \<Rightarrow> executeCalls3 env fcs acc' (tr @ [Executed req]) w2)"

fun runChatWithTool ::
  "nat \<Rightarrow> 'w env \<Rightarrow> part_union list \<Rightarrow> event list \<Rightarrow> 'w \<Rightarrow> outcome \<times> event list" where
  \<comment> \<open>Lines 35 to 119: \<open>while (true)\<close>, with the number of rounds allowed as first
      argument. The answer is what line 116 prints.\<close>
  "runChatWithTool 0 env input tr w = (OutOfRounds, tr)"
| "runChatWithTool (Suc n) env input tr w =
     (let (chunks, w1) = sendMessageStream env input w;
          acc = consumeStream3 chunks;
          tr1 = tr @ [Sent input]
      in if functionCalls acc \<noteq> [] then
           (case executeCalls3 env (functionCalls acc) [] tr1 w1 of
              (Inl e, tr2, w2) \<Rightarrow> (Threw e, tr2)
            | (Inr parts, tr2, w2) \<Rightarrow> runChatWithTool n env (map PObj parts) tr2 w2)
         else (Answered (trim (responseText acc)), tr1))"

subsection \<open>Step 4: \<open>runDemo\<close>\<close>

record demo_acc =
  demoCalls :: "function_call list"
  streamedText :: string

definition consumePart4 :: "demo_acc \<Rightarrow> part \<Rightarrow> demo_acc" where
  "consumePart4 acc p =
     (if truthy (part_text p) \<and> part_thought p \<noteq> Some True
      then acc\<lparr>streamedText := streamedText acc @ textOf (part_text p)\<rparr>
      else acc)"

definition consumeResp4 :: "demo_acc \<Rightarrow> chunk \<Rightarrow> demo_acc" where
  "consumeResp4 acc resp =
     (let acc1 = (case chunk_functionCalls resp of
                    None \<Rightarrow> acc
                  | Some fcs \<Rightarrow> acc\<lparr>demoCalls := demoCalls acc @ fcs\<rparr>)
      in case chunk_parts resp of None \<Rightarrow> acc1 | Some ps \<Rightarrow> foldl consumePart4 acc1 ps)"

definition consumeStream4 :: "chunk list \<Rightarrow> demo_acc" where
  "consumeStream4 resps = foldl consumeResp4 \<lparr>demoCalls = [], streamedText = []\<rparr> resps"

definition pushCall4 :: "part_union list \<Rightarrow> completed_call \<Rightarrow> part_union list" where
  \<comment> \<open>Lines 473 to 480, for one completed call: the status is not looked at.\<close>
  "pushCall4 acc call =
     (case cc_response call of
        None \<Rightarrow> acc
      | Some r \<Rightarrow>
          if truthyParts (tr_responseParts r) then acc @ partsOf (tr_responseParts r) else acc)"

definition toolResponseParts4 :: "completed_call list \<Rightarrow> part_union list" where
  "toolResponseParts4 completedCalls = foldl pushCall4 [] completedCalls"

fun runDemo ::
  "nat \<Rightarrow> 'w env \<Rightarrow> part_union list \<Rightarrow> event list \<Rightarrow> 'w \<Rightarrow> outcome \<times> event list" where
  \<comment> \<open>Lines 430 to 487 of the later step-4 script.\<close>
  "runDemo 0 env input tr w = (OutOfRounds, tr)"
| "runDemo (Suc n) env input tr w =
     (let (resps, w1) = sendMessageStream env input w;
          acc = consumeStream4 resps;
          tr1 = tr @ [Sent input]
      in if demoCalls acc \<noteq> [] then
           (let (reqs, w2) = mkRequests4 env (demoCalls acc) w1;
                (completedCalls, w3) = schedule env reqs w2
            in runDemo n env (toolResponseParts4 completedCalls) (tr1 @ [Batch reqs]) w3)
         else (Answered (streamedText acc), tr1))"

section \<open>The approval gate of the scheduler\<close>

text \<open>
  Modelled from the spec: \<open>CoreToolScheduler\<close> is imported from the SDK package and is not
  part of the source of the scripts. The definitions of this section follow section 4.2 of
  the specification: the states of a tool call, the auto-approve set kept by one scheduler
  instance (initially empty), what leaves \<open>validating\<close>, and what a decision does.
\<close>

datatype gate_state =
  GValidating | GAwaitingApproval | GExecuting | GCompleted | GCancelled | GErrored

record tool_policy =
  validate :: "request \<Rightarrow> bool"
  needsConfirmation :: "request \<Rightarrow> bool"

record gate =
  autoApprove :: "string set"
  gateCalls :: "(request \<times> gate_state) list"

definition toolName :: "request \<Rightarrow> string" where
  "toolName r = textOf (req_name r)"

definition newGate :: gate where
  "newGate = \<lparr>autoApprove = {}, gateCalls = []\<rparr>"

definition admit :: "tool_policy \<Rightarrow> string set \<Rightarrow> request \<Rightarrow> gate_state" where
  \<comment> \<open>Modelled from the spec: the state a call has on leaving \<open>validating\<close>.\<close>
  "admit pol approved r =
     (if \<not> validate pol r then GErrored
      else if toolName r \<in> approved \<or> \<not> needsConfirmation pol r then GExecuting
      else GAwaitingApproval)"

definition gateSchedule :: "tool_policy \<Rightarrow> request list \<Rightarrow> gate \<Rightarrow> gate" where
  \<comment> \<open>Modelled from the spec: \<open>schedule(requests)\<close>, up to the end of validation.\<close>
  "gateSchedule pol reqs g =
     g\<lparr>gateCalls := gateCalls g @ map (\<lambda>r. (r, admit pol (autoApprove g) r)) reqs\<rparr>"

definition decided :: "ToolConfirmationOutcome \<Rightarrow> gate_state" where
  "decided d = (case d of ProceedOnce \<Rightarrow> GExecuting | ProceedAlwaysTool \<Rightarrow> GExecuting
                | Cancel \<Rightarrow> GCancelled)"

definition gateDecide :: "nat \<Rightarrow> ToolConfirmationOutcome \<Rightarrow> gate \<Rightarrow> gate" where
  \<comment> \<open>Modelled from the spec: the decision callback of call number \<open>i\<close>; it acts only
      while the call is awaiting approval.\<close>
  "gateDecide i d g =
     (if i < length (gateCalls g) \<and> snd (gateCalls g ! i) = GAwaitingApproval then
        g\<lparr>autoApprove :=
             (if d = ProceedAlwaysTool
              then insert (toolName (fst (gateCalls g ! i))) (autoApprove g)
              else autoApprove g),
          gateCalls := (gateCalls g)[i := (fst (gateCalls g ! i), decided d)]\<rparr>
      else g)"

definition gateFinish :: "nat \<Rightarrow> bool \<Rightarrow> gate \<Rightarrow> gate" where
  \<comment> \<open>Modelled from the spec: the execution of call number \<open>i\<close> ends, with success or not.\<close>
  "gateFinish i ok g =
     (if i < length (gateCalls g) \<and> snd (gateCalls g ! i) = GExecuting then
        g\<lparr>gateCalls :=
             (gateCalls g)[i := (fst (gateCalls g ! i), if ok then GCompleted else GErrored)]\<rparr>
      else g)"

datatype gate_op =
  OpSchedule "request list" | OpDecide nat ToolConfirmationOutcome | OpFinish nat bool

fun gateStep :: "tool_policy \<Rightarrow> gate \<Rightarrow> gate_op \<Rightarrow> gate" where
  "gateStep pol g (OpSchedule reqs) = gateSchedule pol reqs g"
| "gateStep pol g (OpDecide i d) = gateDecide i d g"
| "gateStep pol g (OpFinish i ok) = gateFinish i ok g"

definition gateRun :: "tool_policy \<Rightarrow> gate_op list \<Rightarrow> gate \<Rightarrow> gate" where
  "gateRun pol ops g = foldl (gateStep pol) g ops"





section \<open>Step 5: the calculator tool\<close>

text \<open>
  \<open>execute(params: unknown)\<close>: the argument is null or undefined, or a value whose
  \<open>expression\<close> property is a string or something else (absent included). The arguments
  of a function call are JSON values, so a value that is not a string has no \<open>replace\<close>
  method; it is kept with its rendering by a template literal, which is missing when
  the conversion to a string raises (an object whose \<open>toString\<close> is not a function, say).
  The dynamic evaluation \<open>Function(src)()\<close> is the parameter \<open>run\<close>: it raises or gives a
  result, rendered as the template literal does. Next to its result a function gives
  the list of the sources it has passed to \<open>run\<close>. (Calling \<open>replace\<close> on a value
  that is not a string raises a TypeError; its wording by the engine, which differs for
  \<open>undefined\<close> and \<open>null\<close>, is given once.)
\<close>

datatype expr_value = ExprStr string | ExprOther "string option"

datatype params = ParamsNullish | ParamsObject expr_value

record ToolResult =
  llmContent :: string
  returnDisplay :: string

definition isDigit :: "char \<Rightarrow> bool" where
  "isDigit c = (48 \<le> (of_char c :: nat) \<and> (of_char c :: nat) \<le> 57)"

definition allowedChar :: "char \<Rightarrow> bool" where
  \<comment> \<open>The complement of the class \<open>[^0-9+\-*/().\s]\<close>.\<close>
  "allowedChar c = (isDigit c \<or> c \<in> set ''+-*/().'' \<or> isWhiteSpace c)"

definition showExpr :: "expr_value \<Rightarrow> js_error + string" where
  \<comment> \<open>\<open>${expression}\<close>\<close>
  "showExpr e =
     (case e of
        ExprStr s \<Rightarrow> Inr s
      | ExprOther (Some s) \<Rightarrow> Inr s
      | ExprOther None \<Rightarrow> Inl (TypeError ''Cannot convert object to primitive value''))"

definition messageOf :: "js_error \<Rightarrow> string" where
  \<comment> \<open>\<open>error instanceof Error ? error.message : String(error)\<close>\<close>
  "messageOf e =
     (case e of TypeError m \<Rightarrow> m | Error m \<Rightarrow> m | NonError s \<Rightarrow> s | ThrownNullish s \<Rightarrow> s)"

definition functionSource :: "string \<Rightarrow> string" where
  \<comment> \<open>\<open>'"use strict"; return (' + cleaned + ')'\<close>\<close>
  "functionSource cleaned =
     [CHR 0x22] @ ''use strict'' @ [CHR 0x22] @ ''; return ('' @ cleaned @ '')''"

fun evaluateExpression ::
  "(string \<Rightarrow> js_error + string) \<Rightarrow> expr_value \<Rightarrow> (js_error + string) \<times> string list" where
  "evaluateExpression run (ExprStr expr) =
     (let cleaned = filter allowedChar expr in
      if cleaned \<noteq> expr then (Inl (Error ''Invalid characters in expression''), [])
      else (run (functionSource cleaned), [functionSource cleaned]))"
| "evaluateExpression run (ExprOther s) = (Inl (TypeError ''expr.replace is not a function''), [])"

definition execute ::
  "(string \<Rightarrow> js_error + string) \<Rightarrow> params \<Rightarrow> (js_error + ToolResult) \<times> string list" where
  \<comment> \<open>\<open>Inl\<close> is a rejected promise. The destructuring of line 211 is outside the \<open>try\<close>;
      the template literals of lines 218 and 225 are inside the \<open>try\<close> and inside the
      \<open>catch\<close>.\<close>
  "execute run ps =
     (case ps of
        ParamsNullish \<Rightarrow> (Inl (TypeError ''Cannot destructure property of undefined''), [])
      | ParamsObject expression \<Rightarrow>
          (let (evaluated, sources) = evaluateExpression run expression;
               tried =
                 (case evaluated of
                    Inl e \<Rightarrow> Inl e
                  | Inr result \<Rightarrow>
                      (case showExpr expression of
                         Inl e \<Rightarrow> Inl e
                       | Inr shown \<Rightarrow>
                           Inr \<lparr>llmContent = shown @ '' = '' @ result,
                                returnDisplay = shown @ '' = '' @ result\<rparr>))
           in case tried of
                Inr res \<Rightarrow> (Inr res, sources)
              | Inl error \<Rightarrow>
                  (case showExpr expression of
                     Inl e \<Rightarrow> (Inl e, sources)
                   | Inr shown \<Rightarrow>
                       (Inr \<lparr>llmContent =
                               ''Error calculating '' @ shown @ '': '' @ messageOf error,
                             returnDisplay = ''Error: '' @ messageOf error\<rparr>, sources))))"

definition shouldConfirmExecute :: "params \<Rightarrow> bool" where
  \<comment> \<open>\<open>false\<close> is "no confirmation"; the other result would be the confirmation details.\<close>
  "shouldConfirmExecute ps = False"

section \<open>Exit codes\<close>















section \<open>What a reply and a batch carry\<close>

text \<open>
  Plain descriptions of the data the loops read, used to state their properties: the
  parts of a streamed reply, the tool-call requests and the texts among them, and what
  one completed call contributes.
\<close>

definition allParts :: "chunk list \<Rightarrow> part list" where
  "allParts chunks =
     concat (map (\<lambda>ch. case chunk_parts ch of None \<Rightarrow> [] | Some ps \<Rightarrow> ps) chunks)"

definition callsOf :: "part list \<Rightarrow> function_call list" where
  \<comment> \<open>The tool-call requests carried by a list of parts, in order.\<close>
  "callsOf ps = concat (map (\<lambda>p. case part_functionCall p of None \<Rightarrow> [] | Some fc \<Rightarrow> [fc]) ps)"

definition thoughtText :: "part list \<Rightarrow> string" where
  "thoughtText ps =
     concat (map (\<lambda>p. textOf (part_text p)) (filter (\<lambda>p. part_thought p = Some True) ps))"

definition plainText :: "part list \<Rightarrow> string" where
  "plainText ps =
     concat (map (\<lambda>p. textOf (part_text p)) (filter (\<lambda>p. part_thought p \<noteq> Some True) ps))"

definition batchCalls :: "chunk list \<Rightarrow> function_call list" where
  \<comment> \<open>The tool-call requests of a reply as step 4 reads them, from \<open>resp.functionCalls\<close>.\<close>
  "batchCalls chunks =
     concat (map (\<lambda>ch. case chunk_functionCalls ch of None \<Rightarrow> [] | Some fcs \<Rightarrow> fcs) chunks)"

definition callParts :: "completed_call \<Rightarrow> part_union list" where
  \<comment> \<open>What one completed call adds to \<open>toolResponseParts\<close> in step 4.\<close>
  "callParts call = pushCall4 [] call"

section \<open>The wording of the specification\<close>

text \<open>
  Two definitions written from the specification's sentences, to compare the scripts with:
  the approval protocol of its section 6, and the accumulated content text of a reply.
\<close>

definition specOutcome :: "string \<Rightarrow> ToolConfirmationOutcome" where
  \<comment> \<open>"accepts the literal tokens y (proceed once), a (always approve this tool),
      anything else (cancel)"\<close>
  "specOutcome s =
     (if s = ''y'' then ProceedOnce else if s = ''a'' then ProceedAlwaysTool else Cancel)"

definition contentText :: "chunk list \<Rightarrow> string" where
  \<comment> \<open>"the concatenation, in arrival order, of all non-thought text fragments"\<close>
  "contentText chunks =
     concat (map (\<lambda>p. textOf (part_text p))
               (filter (\<lambda>p. part_thought p \<noteq> Some True) (allParts chunks)))"

section \<open>Concrete collaborators for the examples\<close>

text \<open>
  A backend that plays a fixed list of replies, one per round, an executor and a scheduler
  that give a fixed result, and a clock that counts. The world is the replies left and
  the clock.
\<close>

definition scriptedEnv ::
  "tool_response \<Rightarrow> completed_call list \<Rightarrow> (chunk list list \<times> nat) env" where
  "scriptedEnv resp completedCalls =
     \<lparr>sendMessageStream =
        (\<lambda>input (replies, t). ((case replies of [] \<Rightarrow> [] | r # rs \<Rightarrow> r), (tl replies, t))),
      executeToolCall = (\<lambda>req w. (resp, w)),
      schedule = (\<lambda>reqs w. (completedCalls, w)),
      dateNow = (\<lambda>(replies, t). (t, (replies, Suc t)))\<rparr>"

definition textChunk :: "string \<Rightarrow> chunk" where
  "textChunk s = \<lparr>chunk_functionCalls = None, chunk_parts = Some [textPart s]\<rparr>"

definition callChunk :: "function_call \<Rightarrow> chunk" where
  "callChunk fc =
     \<lparr>chunk_functionCalls = Some [fc],
      chunk_parts = Some [\<lparr>part_text = None, part_thought = None,
        part_functionCall = Some fc, part_functionResponse = None\<rparr>]\<rparr>"

definition responsePart :: "string \<Rightarrow> string \<Rightarrow> args \<Rightarrow> part" where
  \<comment> \<open>\<open>{ functionResponse: { id, name, response } }\<close>\<close>
  "responsePart cid nm resp =
     \<lparr>part_text = None, part_thought = None, part_functionCall = None,
      part_functionResponse = Some \<lparr>fr_id = Some cid, fr_name = Some nm, fr_response = Some resp\<rparr>\<rparr>"

definition noResponse :: tool_response where
  "noResponse = \<lparr>tr_callId = [], tr_responseParts = Single PNullish, tr_error = None\<rparr>"

definition runFour :: "string \<Rightarrow> js_error + string" where
  \<comment> \<open>An evaluator whose result is always 4.\<close>
  "runFour src = Inr ''4''"

definition writePolicy :: tool_policy where
  \<comment> \<open>Every request is valid; \<open>write_file\<close> asks for confirmation.\<close>
  "writePolicy = \<lparr>validate = (\<lambda>r. True), needsConfirmation = (\<lambda>r. toolName r = ''write_file'')\<rparr>"

definition namedRequest :: "string \<Rightarrow> string \<Rightarrow> request" where
  "namedRequest cid nm =
     \<lparr>req_callId = cid, req_name = Some nm, req_args = Some [], req_isClientInitiated = Some False\<rparr>"

definition emptyIdCall :: function_call where
  "emptyIdCall = \<lparr>fc_id = Some [], fc_name = Some ''ls'', fc_args = None\<rparr>"

definition parisEnv :: "(chunk list list \<times> nat) env" where
  "parisEnv = scriptedEnv noResponse []"

definition parisReply :: "chunk list" where
  "parisReply = [textChunk '' Paris '']"



definition lsCall :: function_call where
  "lsCall = \<lparr>fc_id = Some ''call-1'', fc_name = Some ''list_directory'', fc_args = None\<rparr>"

definition lsRequest :: request where
  "lsRequest =
     \<lparr>req_callId = ''call-1'', req_name = Some ''list_directory'', req_args = Some [],
      req_isClientInitiated = Some False\<rparr>"

definition arrayResponse :: tool_response where
  \<comment> \<open>A tool response whose \<open>responseParts\<close> is an array: a function response and a
      string.\<close>
  "arrayResponse =
     \<lparr>tr_callId = ''call-1'',
      tr_responseParts = Many [PObj (responsePart ''call-1'' ''list_directory''
                                 [(''output'', ''a.txt'')]), PStr ''a.txt''],
      tr_error = None\<rparr>"

definition arrayEnv :: "(chunk list list \<times> nat) env" where
  "arrayEnv = scriptedEnv arrayResponse []"

definition waitingGate :: gate where
  \<comment> \<open>One batch scheduled on a new gate: a \<open>write_file\<close> call, awaiting approval.\<close>
  "waitingGate = gateSchedule writePolicy [namedRequest ''call-1'' ''write_file''] newGate"



section \<open>Properties\<close>

subsection \<open>Lower case\<close>

lemma lowerChar_letter:
  assumes "97 \<le> (of_char d :: nat)" "(of_char d :: nat) \<le> 122"
  shows "lowerChar c = d \<longleftrightarrow> c = d \<or> (of_char c :: nat) + 32 = of_char d"
proof -
  let ?n = "of_char c :: nat"
  have lt: "?n < 256" by simp
  show ?thesis
  proof (cases "(65 \<le> ?n \<and> ?n \<le> 90) \<or> (192 \<le> ?n \<and> ?n \<le> 222 \<and> ?n \<noteq> 215)")
    case True
    then have low: "lowerChar c = char_of (?n + 32)" by (simp add: lowerChar_def Let_def)
    have "char_of (?n + 32) = d \<longleftrightarrow> ?n + 32 = of_char d"
    proof
      assume "char_of (?n + 32) = d"
      then have "(of_char (char_of (?n + 32)) :: nat) = of_char d" by simp
      then have "(?n + 32) mod 256 = (of_char d :: nat)" by (simp only: of_char_of)
      with True show "?n + 32 = of_char d" by auto
    next
      assume "?n + 32 = of_char d"
      then have "char_of (?n + 32) = char_of (of_char d :: nat)" by simp
      then show "char_of (?n + 32) = d" by simp
    qed
    moreover have "c \<noteq> d" using True assms by auto
    ultimately show ?thesis using low by simp
  next
    case False
    then have "lowerChar c = c" by (auto simp: lowerChar_def Let_def)
    moreover have "?n + 32 \<noteq> of_char d \<or> c = d" using False assms by auto
    ultimately show ?thesis by auto
  qed
qed

lemma lowerChar_y: "lowerChar c = CHR ''y'' \<longleftrightarrow> c = CHR ''y'' \<or> c = CHR ''Y''"
proof -
  have "(of_char c :: nat) + 32 = of_char CHR ''y'' \<longleftrightarrow> (of_char c :: nat) = of_char CHR ''Y''"
    by auto
  then show ?thesis using lowerChar_letter [of "CHR ''y''" c] by (simp only: of_char_eq_iff) simp
qed

lemma lowerChar_a: "lowerChar c = CHR ''a'' \<longleftrightarrow> c = CHR ''a'' \<or> c = CHR ''A''"
proof -
  have "(of_char c :: nat) + 32 = of_char CHR ''a'' \<longleftrightarrow> (of_char c :: nat) = of_char CHR ''A''"
    by auto
  then show ?thesis using lowerChar_letter [of "CHR ''a''" c] by (simp only: of_char_eq_iff) simp
qed

lemma lowerChar_e: "lowerChar c = CHR ''e'' \<longleftrightarrow> c = CHR ''e'' \<or> c = CHR ''E''"
proof -
  have "(of_char c :: nat) + 32 = of_char CHR ''e'' \<longleftrightarrow> (of_char c :: nat) = of_char CHR ''E''"
    by auto
  then show ?thesis using lowerChar_letter [of "CHR ''e''" c] by (simp only: of_char_eq_iff) simp
qed

lemma lowerChar_s: "lowerChar c = CHR ''s'' \<longleftrightarrow> c = CHR ''s'' \<or> c = CHR ''S''"
proof -
  have "(of_char c :: nat) + 32 = of_char CHR ''s'' \<longleftrightarrow> (of_char c :: nat) = of_char CHR ''S''"
    by auto
  then show ?thesis using lowerChar_letter [of "CHR ''s''" c] by (simp only: of_char_eq_iff) simp
qed

lemma toLowerCase_y: "toLowerCase s = ''y'' \<longleftrightarrow> s = ''y'' \<or> s = ''Y''"
  by (auto simp: toLowerCase_def lowerChar_y map_eq_Cons_conv)

lemma toLowerCase_a: "toLowerCase s = ''a'' \<longleftrightarrow> s = ''a'' \<or> s = ''A''"
  by (auto simp: toLowerCase_def lowerChar_a map_eq_Cons_conv)

lemma toLowerCase_yes_chars:
  "toLowerCase s = ''yes'' \<longleftrightarrow>
     (\<exists>a b c. s = [a, b, c] \<and> lowerChar a = CHR ''y'' \<and> lowerChar b = CHR ''e''
        \<and> lowerChar c = CHR ''s'')"
  by (simp add: toLowerCase_def map_eq_Cons_conv) blast

lemma toLowerCase_yes:
  "toLowerCase s = ''yes'' \<longleftrightarrow>
     s \<in> {''yes'', ''Yes'', ''yEs'', ''yeS'', ''YEs'', ''YeS'', ''yES'', ''YES''}"
  unfolding toLowerCase_yes_chars lowerChar_y lowerChar_e lowerChar_s by auto

subsection \<open>The approval protocol\<close>

text \<open>
  C3 (as amended). At every approval prompt of step 4 the answer is compared after
  \<open>toLowerCase\<close>: \<open>y\<close> and \<open>Y\<close> give proceed-once, \<open>a\<close> and \<open>A\<close> give
  proceed-always-for-this-tool, every other answer gives cancel. The prompt of step 5 is
  a yes/no question: \<open>y\<close> and \<open>yes\<close> in any mix of cases give proceed-once, every
  other answer, \<open>a\<close> included, gives cancel.
\<close>

theorem approval_mapping:
  "approvalOutcome s =
     (if s = ''y'' \<or> s = ''Y'' then ProceedOnce
      else if s = ''a'' \<or> s = ''A'' then ProceedAlwaysTool
      else Cancel)
   \<and> confirmOutcome s =
     (if s \<in> {''y'', ''Y'', ''yes'', ''Yes'', ''yEs'', ''yeS'', ''YEs'', ''YeS'', ''yES'', ''YES''}
      then ProceedOnce else Cancel)"
proof -
  have "''y'' \<noteq> ''a''" by simp
  then show ?thesis
    unfolding approvalOutcome_def confirmOutcome_def confirm_def Let_def
      toLowerCase_y toLowerCase_a toLowerCase_yes
    by auto
qed

text \<open>
  C3 as stated fails: the answer \<open>Y\<close> is not the token \<open>y\<close> and is still taken as
  proceed-once in step 4, and the answer \<open>a\<close> cancels in step 5.
\<close>

theorem approval_mapping_counterexample:
  "approvalOutcome ''Y'' \<noteq> specOutcome ''Y'' \<and> confirmOutcome ''a'' \<noteq> specOutcome ''a''"
  by (simp add: approvalOutcome_def confirmOutcome_def confirm_def specOutcome_def
      toLowerCase_y toLowerCase_a toLowerCase_yes)

theorem approval_mapping_witness:
  "approvalOutcome ''A'' = ProceedAlwaysTool \<and> confirmOutcome ''A'' = Cancel
   \<and> confirmOutcome ''Yes'' = ProceedOnce"
  using approval_mapping [of "''A''"] approval_mapping [of "''Yes''"] by simp

subsection \<open>Call identifiers\<close>

lemma generatedId_eq:
  "generatedId env fc w =
     (showName (fc_name fc) @ ''-'' @ showNat (fst (dateNow env w)), snd (dateNow env w))"
  by (simp add: generatedId_def split: prod.splits)

lemma mkRequest3_callId:
  "req_callId (fst (mkRequest3 env fc w)) = fst (callIdNullish env fc w)"
  by (simp add: mkRequest3_def split: prod.splits)

lemma mkRequest5_callId:
  "req_callId (fst (mkRequest5 env fc w)) = fst (callIdFalsy env fc w)"
  by (simp add: mkRequest5_def split: prod.splits)

lemma mkRequestOld3_callId:
  "req_callId (fst (mkRequestOld3 env fc w)) = fst (callIdFalsy env fc w)"
  by (simp add: mkRequestOld3_def split: prod.splits)

text \<open>
  C6 (as amended). Every script that builds a request uses an identifier the backend
  supplied, unchanged, when it is a non-empty string, and otherwise generates the tool
  name, a hyphen and the clock reading in decimal. An identifier that is the empty
  string is kept by the step-3 loop and step 4 (operator \<open>??\<close>) and replaced by a
  generated one in step 5 and the earlier step-3 script (operator \<open>||\<close>).
\<close>

theorem call_id_rule:
  "req_callId (fst (mkRequest3 env fc w)) =
     (case fc_id fc of
        Some i \<Rightarrow> i
      | None \<Rightarrow> showName (fc_name fc) @ ''-'' @ showNat (fst (dateNow env w)))
   \<and> req_callId (fst (mkRequest5 env fc w)) =
     (case fc_id fc of
        Some i \<Rightarrow> if i \<noteq> [] then i
                  else showName (fc_name fc) @ ''-'' @ showNat (fst (dateNow env w))
      | None \<Rightarrow> showName (fc_name fc) @ ''-'' @ showNat (fst (dateNow env w)))
   \<and> req_callId (fst (mkRequestOld3 env fc w)) = req_callId (fst (mkRequest5 env fc w))
   \<and> (fc_id fc \<noteq> Some [] \<longrightarrow>
        req_callId (fst (mkRequest5 env fc w)) = req_callId (fst (mkRequest3 env fc w)))"
  by (simp add: mkRequest3_callId mkRequest5_callId mkRequestOld3_callId callIdNullish_def
      callIdFalsy_def generatedId_eq truthy_def textOf_def split: option.splits)

text \<open>
  C6 as stated fails: for the supplied identifier \<open>""\<close> the scripts do not agree, and
  step 5 does not use it.
\<close>

theorem call_id_rule_counterexample:
  "req_callId (fst (mkRequest3 (scriptedEnv noResponse []) emptyIdCall ([], 42))) = []
   \<and> req_callId (fst (mkRequest5 (scriptedEnv noResponse []) emptyIdCall ([], 42))) = ''ls-42''"
proof -
  have "showNat 42 = ''42''" by code_simp
  then show ?thesis
    by (simp add: mkRequest3_callId mkRequest5_callId callIdNullish_def callIdFalsy_def
      generatedId_eq truthy_def emptyIdCall_def scriptedEnv_def showName_def)
qed

theorem call_id_rule_witness:
  "req_callId (fst (mkRequest5 (scriptedEnv noResponse [])
      \<lparr>fc_id = Some ''call-7'', fc_name = Some ''ls'', fc_args = None\<rparr> ([], 42))) = ''call-7''
   \<and> req_callId (fst (mkRequest3 (scriptedEnv noResponse [])
      \<lparr>fc_id = Some ''call-7'', fc_name = Some ''ls'', fc_args = None\<rparr> ([], 42))) = ''call-7''"
  using call_id_rule [of "scriptedEnv noResponse []"
      "\<lparr>fc_id = Some ''call-7'', fc_name = Some ''ls'', fc_args = None\<rparr>" "([], 42)"]
  by simp

subsection \<open>Consuming a streamed reply\<close>

lemma consumePart3_eq:
  "consumePart3 acc p =
     \<lparr>thinkingText = thinkingText acc @ thoughtText [p],
      responseText = responseText acc @ plainText [p],
      functionCalls = functionCalls acc @ callsOf [p]\<rparr>"
  by (cases "part_functionCall p"; cases "part_text p")
     (simp_all add: consumePart3_def Let_def truthy_def textOf_def thoughtText_def
        plainText_def callsOf_def)

lemma texts_append:
  "thoughtText (ps @ qs) = thoughtText ps @ thoughtText qs"
  "plainText (ps @ qs) = plainText ps @ plainText qs"
  "callsOf (ps @ qs) = callsOf ps @ callsOf qs"
  by (simp_all add: thoughtText_def plainText_def callsOf_def)

lemma texts_Nil: "thoughtText [] = []" "plainText [] = []" "callsOf [] = []"
  by (simp_all add: thoughtText_def plainText_def callsOf_def)

lemma foldl_consumePart3:
  "foldl consumePart3 acc ps =
     \<lparr>thinkingText = thinkingText acc @ thoughtText ps,
      responseText = responseText acc @ plainText ps,
      functionCalls = functionCalls acc @ callsOf ps\<rparr>"
proof (induction ps arbitrary: acc)
  case Nil
  show ?case by (simp add: texts_Nil)
next
  case (Cons p ps)
  have "foldl consumePart3 acc (p # ps) = foldl consumePart3 (consumePart3 acc p) ps"
    by simp
  also have "\<dots> = \<lparr>thinkingText = thinkingText (consumePart3 acc p) @ thoughtText ps,
      responseText = responseText (consumePart3 acc p) @ plainText ps,
      functionCalls = functionCalls (consumePart3 acc p) @ callsOf ps\<rparr>"
    by (rule Cons.IH)
  also have "\<dots> = \<lparr>thinkingText = thinkingText acc @ thoughtText ([p] @ ps),
      responseText = responseText acc @ plainText ([p] @ ps),
      functionCalls = functionCalls acc @ callsOf ([p] @ ps)\<rparr>"
    unfolding texts_append by (simp add: consumePart3_eq)
  finally show ?case by simp
qed

lemma allParts_Cons:
  "allParts (ch # chunks) =
     (case chunk_parts ch of None \<Rightarrow> [] | Some ps \<Rightarrow> ps) @ allParts chunks"
  by (simp add: allParts_def)

lemma consumeChunk3_eq:
  "consumeChunk3 acc ch =
     \<lparr>thinkingText = thinkingText acc @ thoughtText (allParts [ch]),
      responseText = responseText acc @ plainText (allParts [ch]),
      functionCalls = functionCalls acc @ callsOf (allParts [ch])\<rparr>"
  by (cases "chunk_parts ch")
     (simp_all add: consumeChunk3_def foldl_consumePart3 allParts_def texts_Nil)

lemma foldl_consumeChunk3:
  "foldl consumeChunk3 acc chunks =
     \<lparr>thinkingText = thinkingText acc @ thoughtText (allParts chunks),
      responseText = responseText acc @ plainText (allParts chunks),
      functionCalls = functionCalls acc @ callsOf (allParts chunks)\<rparr>"
proof (induction chunks arbitrary: acc)
  case Nil
  show ?case by (simp add: allParts_def texts_Nil)
next
  case (Cons ch chunks)
  have split: "allParts (ch # chunks) = allParts [ch] @ allParts chunks"
    by (simp add: allParts_def)
  have "foldl consumeChunk3 acc (ch # chunks) = foldl consumeChunk3 (consumeChunk3 acc ch) chunks"
    by simp
  also have "\<dots> = \<lparr>thinkingText = thinkingText (consumeChunk3 acc ch) @ thoughtText (allParts chunks),
      responseText = responseText (consumeChunk3 acc ch) @ plainText (allParts chunks),
      functionCalls = functionCalls (consumeChunk3 acc ch) @ callsOf (allParts chunks)\<rparr>"
    by (rule Cons.IH)
  also have "\<dots> = \<lparr>thinkingText = thinkingText acc @ thoughtText (allParts (ch # chunks)),
      responseText = responseText acc @ plainText (allParts (ch # chunks)),
      functionCalls = functionCalls acc @ callsOf (allParts (ch # chunks))\<rparr>"
    unfolding split texts_append by (simp add: consumeChunk3_eq)
  finally show ?case .
qed

lemma consumeStream3_eq:
  "consumeStream3 chunks =
     \<lparr>thinkingText = thoughtText (allParts chunks), responseText = contentText chunks,
      functionCalls = callsOf (allParts chunks)\<rparr>"
  by (simp add: consumeStream3_def foldl_consumeChunk3 contentText_def plainText_def)

lemma consumePart4_eq:
  "consumePart4 acc p =
     \<lparr>demoCalls = demoCalls acc, streamedText = streamedText acc @ plainText [p]\<rparr>"
  by (cases "part_text p")
     (simp_all add: consumePart4_def truthy_def textOf_def plainText_def)

lemma foldl_consumePart4:
  "foldl consumePart4 acc ps =
     \<lparr>demoCalls = demoCalls acc, streamedText = streamedText acc @ plainText ps\<rparr>"
proof (induction ps arbitrary: acc)
  case Nil
  show ?case by (simp add: texts_Nil)
next
  case (Cons p ps)
  have "foldl consumePart4 acc (p # ps) = foldl consumePart4 (consumePart4 acc p) ps"
    by simp
  also have "\<dots> = \<lparr>demoCalls = demoCalls (consumePart4 acc p),
      streamedText = streamedText (consumePart4 acc p) @ plainText ps\<rparr>"
    by (rule Cons.IH)
  also have "\<dots> = \<lparr>demoCalls = demoCalls acc,
      streamedText = streamedText acc @ plainText ([p] @ ps)\<rparr>"
    unfolding texts_append by (simp add: consumePart4_eq)
  finally show ?case by simp
qed

lemma consumeResp4_eq:
  "consumeResp4 acc resp =
     \<lparr>demoCalls = demoCalls acc @ batchCalls [resp],
      streamedText = streamedText acc @ plainText (allParts [resp])\<rparr>"
  by (cases "chunk_functionCalls resp"; cases "chunk_parts resp")
     (simp_all add: consumeResp4_def Let_def foldl_consumePart4 batchCalls_def allParts_def
        texts_Nil)

lemma foldl_consumeResp4:
  "foldl consumeResp4 acc resps =
     \<lparr>demoCalls = demoCalls acc @ batchCalls resps,
      streamedText = streamedText acc @ plainText (allParts resps)\<rparr>"
proof (induction resps arbitrary: acc)
  case Nil
  show ?case by (simp add: allParts_def batchCalls_def texts_Nil)
next
  case (Cons r resps)
  have split: "allParts (r # resps) = allParts [r] @ allParts resps"
    "batchCalls (r # resps) = batchCalls [r] @ batchCalls resps"
    by (simp_all add: allParts_def batchCalls_def)
  have "foldl consumeResp4 acc (r # resps) = foldl consumeResp4 (consumeResp4 acc r) resps"
    by simp
  also have "\<dots> = \<lparr>demoCalls = demoCalls (consumeResp4 acc r) @ batchCalls resps,
      streamedText = streamedText (consumeResp4 acc r) @ plainText (allParts resps)\<rparr>"
    by (rule Cons.IH)
  also have "\<dots> = \<lparr>demoCalls = demoCalls acc @ batchCalls (r # resps),
      streamedText = streamedText acc @ plainText (allParts (r # resps))\<rparr>"
    unfolding split texts_append by (simp add: consumeResp4_eq)
  finally show ?case .
qed

lemma consumeStream4_eq:
  "consumeStream4 resps = \<lparr>demoCalls = batchCalls resps, streamedText = contentText resps\<rparr>"
  by (simp add: consumeStream4_def foldl_consumeResp4 contentText_def plainText_def)

subsection \<open>A turn without tool-call requests\<close>

text \<open>
  C2 (as amended). In a turn whose streamed reply carries no tool-call request, the
  loop of step 3 answers with the accumulated content text (the non-thought text
  fragments, concatenated in arrival order) after \<open>trim\<close>, the loop of step 4 with exactly
  that text; both stop there, and the turn's only event is the backend round: neither
  the tool executor nor the scheduler is invoked.
\<close>

theorem no_tool_call_turn:
  "(callsOf (allParts (fst (sendMessageStream env input w))) = [] \<longrightarrow>
      runChatWithTool (Suc n) env input tr w =
        (Answered (trim (contentText (fst (sendMessageStream env input w)))),
         tr @ [Sent input]))
   \<and> (batchCalls (fst (sendMessageStream env input w)) = [] \<longrightarrow>
      runDemo (Suc n) env input tr w =
        (Answered (contentText (fst (sendMessageStream env input w))), tr @ [Sent input]))"
  by (simp add: consumeStream3_eq consumeStream4_eq split: prod.splits)

text \<open>
  C2 as stated fails in step 3: for the reply \<open>" Paris "\<close> the answer is \<open>"Paris"\<close>, not
  the accumulated content text.
\<close>

theorem no_tool_call_turn_counterexample:
  "callsOf (allParts parisReply) = []
   \<and> fst (runChatWithTool 1 parisEnv [PObj (textPart ''capital?'')] [] ([parisReply], 0))
       = Answered ''Paris''
   \<and> contentText parisReply = '' Paris ''"
  by (simp add: parisReply_def parisEnv_def scriptedEnv_def textChunk_def textPart_def
      consumeStream3_eq contentText_def allParts_def callsOf_def textOf_def trim_def
      isWhiteSpace_def)

theorem no_tool_call_turn_witness:
  "callsOf (allParts parisReply) = []
   \<and> runChatWithTool 1 parisEnv [PObj (textPart ''capital?'')] [] ([parisReply], 0)
       = (Answered (trim (contentText parisReply)), [Sent [PObj (textPart ''capital?'')]])
   \<and> batchCalls parisReply = []
   \<and> runDemo 1 parisEnv [PObj (textPart ''capital?'')] [] ([parisReply], 0)
       = (Answered (contentText parisReply), [Sent [PObj (textPart ''capital?'')]])"
proof -
  have reply: "fst (sendMessageStream parisEnv [PObj (textPart ''capital?'')] ([parisReply], 0))
      = parisReply"
    by (simp add: parisEnv_def scriptedEnv_def)
  have none: "callsOf (allParts parisReply) = []" "batchCalls parisReply = []"
    by (simp_all add: parisReply_def textChunk_def textPart_def allParts_def callsOf_def
        batchCalls_def)
  show ?thesis
    using no_tool_call_turn [of parisEnv "[PObj (textPart ''capital?'')]" "([parisReply], 0)" 0 "[]"]
    unfolding reply using none by simp
qed

subsection \<open>The tool results of a batch in step 4\<close>

lemma pushCall4_eq: "pushCall4 acc call = acc @ callParts call"
  by (simp add: pushCall4_def callParts_def split: option.splits)

lemma foldl_pushCall4: "foldl pushCall4 acc calls = acc @ concat (map callParts calls)"
proof (induction calls arbitrary: acc)
  case Nil
  show ?case by simp
next
  case (Cons c calls)
  have "foldl pushCall4 acc (c # calls) = foldl pushCall4 (pushCall4 acc c) calls"
    by simp
  also have "\<dots> = pushCall4 acc c @ concat (map callParts calls)"
    by (rule Cons.IH)
  also have "\<dots> = acc @ concat (map callParts (c # calls))"
    by (simp add: pushCall4_eq)
  finally show ?case .
qed

lemma toolResponseParts4_eq: "toolResponseParts4 calls = concat (map callParts calls)"
  by (simp add: toolResponseParts4_def foldl_pushCall4)

lemma callParts_payload:
  "cc_response call = Some r \<Longrightarrow> truthyParts (tr_responseParts r) \<Longrightarrow>
     callParts call = partsOf (tr_responseParts r)"
  by (simp add: callParts_def pushCall4_def)

lemma runDemo_trace: "\<exists>more. snd (runDemo n env input tr w) = tr @ more"
proof (induction n arbitrary: input tr w)
  case 0
  show ?case by simp
next
  case (Suc n)
  obtain resps w1 where send: "sendMessageStream env input w = (resps, w1)"
    by (cases "sendMessageStream env input w")
  show ?case
  proof (cases "demoCalls (consumeStream4 resps) = []")
    case True
    then show ?thesis using send by simp
  next
    case False
    obtain reqs w2 where mk: "mkRequests4 env (demoCalls (consumeStream4 resps)) w1 = (reqs, w2)"
      by (cases "mkRequests4 env (demoCalls (consumeStream4 resps)) w1")
    obtain fin w3 where sch: "schedule env reqs w2 = (fin, w3)"
      by (cases "schedule env reqs w2")
    from Suc.IH [of "toolResponseParts4 fin" "(tr @ [Sent input]) @ [Batch reqs]" w3]
    obtain more where
      "snd (runDemo n env (toolResponseParts4 fin) ((tr @ [Sent input]) @ [Batch reqs]) w3) =
         ((tr @ [Sent input]) @ [Batch reqs]) @ more"
      by blast
    then show ?thesis using False send mk sch by simp
  qed
qed

lemma runDemo_sends: "\<exists>more. snd (runDemo (Suc n) env input tr w) = tr @ [Sent input] @ more"
proof -
  obtain resps w1 where send: "sendMessageStream env input w = (resps, w1)"
    by (cases "sendMessageStream env input w")
  show ?thesis
  proof (cases "demoCalls (consumeStream4 resps) = []")
    case True
    then show ?thesis using send by simp
  next
    case False
    obtain reqs w2 where mk: "mkRequests4 env (demoCalls (consumeStream4 resps)) w1 = (reqs, w2)"
      by (cases "mkRequests4 env (demoCalls (consumeStream4 resps)) w1")
    obtain fin w3 where sch: "schedule env reqs w2 = (fin, w3)"
      by (cases "schedule env reqs w2")
    obtain more where
      "snd (runDemo n env (toolResponseParts4 fin) ((tr @ [Sent input]) @ [Batch reqs]) w3) =
         ((tr @ [Sent input]) @ [Batch reqs]) @ more"
      using runDemo_trace [of n env "toolResponseParts4 fin" "(tr @ [Sent input]) @ [Batch reqs]" w3]
      by blast
    then show ?thesis using False send mk sch by simp
  qed
qed

lemma runDemo_round:
  assumes "sendMessageStream env input w = (resps, w1)"
    and "batchCalls resps \<noteq> []"
    and "mkRequests4 env (batchCalls resps) w1 = (reqs, w2)"
    and "schedule env reqs w2 = (completedCalls, w3)"
  shows "runDemo (Suc n) env input tr w =
    runDemo n env (toolResponseParts4 completedCalls) (tr @ [Sent input, Batch reqs]) w3"
  using assms by (simp add: consumeStream4_eq)

lemma runDemo_forwards_payloads:
  assumes "sendMessageStream env input w = (resps, w1)"
    and "batchCalls resps \<noteq> []"
    and "mkRequests4 env (batchCalls resps) w1 = (reqs, w2)"
    and "schedule env reqs w2 = (before @ call # after, w3)"
    and "cc_response call = Some r"
    and "truthyParts (tr_responseParts r)"
  shows "\<exists>more.
    snd (runDemo (Suc (Suc n)) env input tr w) =
      tr @ [Sent input, Batch reqs,
            Sent (toolResponseParts4 before @ partsOf (tr_responseParts r)
                    @ toolResponseParts4 after)] @ more"
proof -
  let ?next = "toolResponseParts4 (before @ call # after)"
  have next_eq: "?next =
      toolResponseParts4 before @ partsOf (tr_responseParts r) @ toolResponseParts4 after"
    using assms(5,6) by (simp add: toolResponseParts4_eq callParts_payload)
  have step: "runDemo (Suc (Suc n)) env input tr w =
      runDemo (Suc n) env ?next (tr @ [Sent input, Batch reqs]) w3"
    using assms(1-4) by (rule runDemo_round)
  obtain more where
    "snd (runDemo (Suc n) env ?next (tr @ [Sent input, Batch reqs]) w3) =
       (tr @ [Sent input, Batch reqs]) @ [Sent ?next] @ more"
    using runDemo_sends [of n env ?next "tr @ [Sent input, Batch reqs]" w3] by blast
  then show ?thesis using step next_eq by simp
qed

subsection \<open>The tool results of a round in step 3\<close>

lemma foldl_pushPart3_objects:
  "foldl pushPart3 acc ps =
     acc @ concat (map (\<lambda>p. case p of PStr s \<Rightarrow> [textPart s] | PObj q \<Rightarrow> [q] | PNullish \<Rightarrow> []) ps)"
proof (induction ps arbitrary: acc)
  case Nil
  show ?case by simp
next
  case (Cons p ps)
  show ?case by (cases p) (simp_all add: Cons.IH)
qed

lemma collectResponse3_single:
  assumes "collectResponse3 acc r = Inr acc'"
  shows "acc' = acc \<or> (\<exists>p. tr_responseParts r = Single (PObj p) \<and> acc' = acc @ [p])"
proof (cases "tr_responseParts r")
  case (Single u)
  then show ?thesis using assms
    by (cases u) (auto simp: collectResponse3_def split: if_splits option.splits sum.splits)
next
  case (Many ps)
  then show ?thesis using assms by (simp add: collectResponse3_def)
qed

lemma runChatWithTool_round:
  assumes "sendMessageStream env input w = (chunks, w1)"
    and "callsOf (allParts chunks) \<noteq> []"
    and "executeCalls3 env (callsOf (allParts chunks)) [] (tr @ [Sent input]) w1 =
      (Inr parts, tr2, w2)"
  shows "runChatWithTool (Suc n) env input tr w =
    runChatWithTool n env (map PObj parts) tr2 w2"
  using assms by (simp add: consumeStream3_eq)

text \<open>
  C9: the code departs from the claim. Lines 95 to 104 wrap, convert and drop as the claim
  says, but line 92 reads \<open>.functionResponse.response\<close> of the response parts first, and
  that raises for an array and for a string: for the array response of the example the
  round ends with a TypeError instead of setting the next input to the two object parts
  that lines 95 to 104 would give.
\<close>

theorem array_response_raises:
  "collectResponse3 [] arrayResponse = Inl (TypeError ''Cannot read properties of undefined'')
   \<and> foldl pushPart3 [] (partsOf (tr_responseParts arrayResponse)) =
       [responsePart ''call-1'' ''list_directory'' [(''output'', ''a.txt'')], textPart ''a.txt'']"
  by (simp add: collectResponse3_def arrayResponse_def)

text \<open>
  C1: the code departs from the claim in step 3. The first reply of the example carries
  one tool-call request and the executor answers with an array of parts; the loop then
  ends in that round with the TypeError of line 92: it has made one backend round,
  executed the call, and neither answered nor started another round.
\<close>

theorem tool_round_raises:
  "runChatWithTool 3 arrayEnv [PObj (textPart ''list files'')] []
     ([[callChunk lsCall], [textChunk ''Done'']], 0) =
     (Threw (TypeError ''Cannot read properties of undefined''),
      [Sent [PObj (textPart ''list files'')], Executed lsRequest])"
proof -
  have calls: "consumeStream3 [callChunk lsCall] =
      \<lparr>thinkingText = [], responseText = [], functionCalls = [lsCall]\<rparr>"
    by (simp add: consumeStream3_eq callChunk_def allParts_def thoughtText_def contentText_def
        callsOf_def textOf_def)
  have req: "mkRequest3 arrayEnv lsCall w = (lsRequest, w)" for w
    by (simp add: mkRequest3_def callIdNullish_def lsCall_def lsRequest_def)
  have exec: "executeToolCall arrayEnv lsRequest w = (arrayResponse, w)" for w
    by (simp add: arrayEnv_def scriptedEnv_def)
  have coll: "collectResponse3 [] arrayResponse = Inl (TypeError ''Cannot read properties of undefined'')"
    by (simp add: collectResponse3_def arrayResponse_def)
  have send: "sendMessageStream arrayEnv input ([[callChunk lsCall], [textChunk ''Done'']], 0) =
      ([callChunk lsCall], ([[textChunk ''Done'']], 0))" for input
    by (simp add: arrayEnv_def scriptedEnv_def)
  show ?thesis
    by (simp add: numeral_3_eq_3 send calls req exec coll)
qed

subsection \<open>The auto-approve set of the approval gate\<close>

lemma gateStep_autoApprove: "autoApprove g \<subseteq> autoApprove (gateStep pol g op)"
  by (cases op) (auto simp: gateSchedule_def gateDecide_def gateFinish_def)

lemma gateRun_autoApprove: "autoApprove g \<subseteq> autoApprove (gateRun pol ops g)"
proof (induction ops arbitrary: g)
  case Nil
  show ?case by (simp add: gateRun_def)
next
  case (Cons op ops)
  have "autoApprove g \<subseteq> autoApprove (gateStep pol g op)"
    by (rule gateStep_autoApprove)
  also have "\<dots> \<subseteq> autoApprove (gateRun pol ops (gateStep pol g op))"
    by (rule Cons.IH)
  finally show ?case by (simp add: gateRun_def)
qed

lemma gateDecide_always:
  assumes "i < length (gateCalls g)" and "snd (gateCalls g ! i) = GAwaitingApproval"
  shows "toolName (fst (gateCalls g ! i)) \<in> autoApprove (gateDecide i ProceedAlwaysTool g)"
  using assms by (simp add: gateDecide_def)

lemma gateDecide_others:
  "j \<noteq> i \<Longrightarrow> gateCalls (gateDecide i d g) ! j = gateCalls g ! j"
  by (simp add: gateDecide_def)

lemma admit_approved: "toolName r \<in> approved \<Longrightarrow> admit pol approved r \<noteq> GAwaitingApproval"
  by (simp add: admit_def)

lemma gateStep_not_awaiting:
  assumes "j < length (gateCalls g)" and "snd (gateCalls g ! j) \<noteq> GAwaitingApproval"
  shows "j < length (gateCalls (gateStep pol g op))
    \<and> snd (gateCalls (gateStep pol g op) ! j) \<noteq> GAwaitingApproval"
proof (cases op)
  case (OpSchedule reqs)
  then show ?thesis using assms by (simp add: gateSchedule_def nth_append)
next
  case (OpDecide i d)
  then show ?thesis using assms by (cases "i = j") (auto simp: gateDecide_def)
next
  case (OpFinish i ok)
  then show ?thesis using assms by (cases "i = j") (auto simp: gateFinish_def)
qed

lemma gateRun_not_awaiting:
  assumes "j < length (gateCalls g)" and "snd (gateCalls g ! j) \<noteq> GAwaitingApproval"
  shows "j < length (gateCalls (gateRun pol ops g))
    \<and> snd (gateCalls (gateRun pol ops g) ! j) \<noteq> GAwaitingApproval"
  using assms
proof (induction ops arbitrary: g)
  case Nil
  then show ?case by (simp add: gateRun_def)
next
  case (Cons op ops)
  have "j < length (gateCalls (gateStep pol g op))
      \<and> snd (gateCalls (gateStep pol g op) ! j) \<noteq> GAwaitingApproval"
    using Cons.prems by (rule gateStep_not_awaiting)
  then have "j < length (gateCalls (gateRun pol ops (gateStep pol g op)))
      \<and> snd (gateCalls (gateRun pol ops (gateStep pol g op)) ! j) \<noteq> GAwaitingApproval"
    using Cons.IH by blast
  then show ?case by (simp add: gateRun_def)
qed

lemma gateSchedule_new_call:
  assumes "k < length reqs"
  shows "length (gateCalls g) + k < length (gateCalls (gateSchedule pol reqs g))
    \<and> gateCalls (gateSchedule pol reqs g) ! (length (gateCalls g) + k) =
        (reqs ! k, admit pol (autoApprove g) (reqs ! k))"
  using assms by (simp add: gateSchedule_def nth_append)

text \<open>
  C4, on the approval gate as the specification describes it. When the call number \<open>i\<close>
  of a scheduler instance is awaiting approval and the decision is proceed-always, the
  tool's name is in the auto-approve set after the decision and after any further
  operations \<open>ops\<close> on that instance; a request \<open>reqs ! k\<close> for the same tool name in a
  batch scheduled then leaves validation in a state other than awaiting approval and is
  not awaiting approval after any operations \<open>ops'\<close> that follow; and the decision
  leaves every other call of the instance as it was.
\<close>

theorem proceed_always_skips_approval:
  assumes "i < length (gateCalls g)"
    and "snd (gateCalls g ! i) = GAwaitingApproval"
    and "k < length reqs"
    and "toolName (reqs ! k) = toolName (fst (gateCalls g ! i))"
  shows "toolName (fst (gateCalls g ! i))
           \<in> autoApprove (gateRun pol ops (gateDecide i ProceedAlwaysTool g))
    \<and> snd (gateCalls (gateRun pol ops'
              (gateSchedule pol reqs (gateRun pol ops (gateDecide i ProceedAlwaysTool g))))
            ! (length (gateCalls (gateRun pol ops (gateDecide i ProceedAlwaysTool g))) + k))
         \<noteq> GAwaitingApproval
    \<and> (\<forall>j. j \<noteq> i \<longrightarrow> gateCalls (gateDecide i ProceedAlwaysTool g) ! j = gateCalls g ! j)"
proof -
  let ?g1 = "gateRun pol ops (gateDecide i ProceedAlwaysTool g)"
  let ?g2 = "gateSchedule pol reqs ?g1"
  let ?j = "length (gateCalls ?g1) + k"
  have member: "toolName (fst (gateCalls g ! i)) \<in> autoApprove ?g1"
    using gateDecide_always [OF assms(1,2)] gateRun_autoApprove by blast
  have new: "?j < length (gateCalls ?g2)"
    "gateCalls ?g2 ! ?j = (reqs ! k, admit pol (autoApprove ?g1) (reqs ! k))"
    using gateSchedule_new_call [OF assms(3), of ?g1 pol] by simp_all
  have "admit pol (autoApprove ?g1) (reqs ! k) \<noteq> GAwaitingApproval"
    using member assms(4) by (simp add: admit_approved)
  then have "snd (gateCalls ?g2 ! ?j) \<noteq> GAwaitingApproval"
    using new(2) by simp
  then have later: "snd (gateCalls (gateRun pol ops' ?g2) ! ?j) \<noteq> GAwaitingApproval"
    using gateRun_not_awaiting [OF new(1)] by blast
  show ?thesis using member later by (simp add: gateDecide_others)
qed

theorem proceed_always_skips_approval_witness:
  "snd (gateCalls waitingGate ! 0) = GAwaitingApproval
   \<and> ''write_file'' \<in> autoApprove
        (gateRun writePolicy [OpFinish 0 True] (gateDecide 0 ProceedAlwaysTool waitingGate))
   \<and> snd (gateCalls (gateRun writePolicy []
            (gateSchedule writePolicy [namedRequest ''call-2'' ''write_file'']
               (gateRun writePolicy [OpFinish 0 True]
                  (gateDecide 0 ProceedAlwaysTool waitingGate)))) ! 1) \<noteq> GAwaitingApproval"
proof -
  have len: "0 < length (gateCalls waitingGate)"
    by (simp add: waitingGate_def gateSchedule_def newGate_def)
  have call: "gateCalls waitingGate ! 0 =
      (namedRequest ''call-1'' ''write_file'', GAwaitingApproval)"
    by (simp add: waitingGate_def gateSchedule_def newGate_def admit_def writePolicy_def
        toolName_def namedRequest_def textOf_def)
  have waiting: "snd (gateCalls waitingGate ! 0) = GAwaitingApproval"
    using call by simp
  have k: "0 < length [namedRequest ''call-2'' ''write_file'']" by simp
  have same: "toolName ([namedRequest ''call-2'' ''write_file''] ! 0) =
      toolName (fst (gateCalls waitingGate ! 0))"
    using call by (simp add: toolName_def namedRequest_def)
  have size: "length (gateCalls (gateRun writePolicy [OpFinish 0 True]
      (gateDecide 0 ProceedAlwaysTool waitingGate))) = 1"
    using call len by (simp add: gateRun_def gateDecide_def gateFinish_def decided_def
        waitingGate_def gateSchedule_def newGate_def)
  have name: "toolName (fst (gateCalls waitingGate ! 0)) = ''write_file''"
    using call by (simp add: toolName_def namedRequest_def textOf_def)
  show ?thesis
    using proceed_always_skips_approval [OF len waiting k same, of writePolicy
        "[OpFinish 0 True]" "[]"]
    by (simp add: size name waiting)
qed

text \<open>
  The set belongs to one instance: a gate created anew, as the step-4 scripts create a
  scheduler for every batch, starts with the empty set and asks again.
\<close>

lemma new_gate_asks_again:
  "autoApprove newGate = {}
   \<and> admit writePolicy (autoApprove newGate) (namedRequest cid ''write_file'') = GAwaitingApproval"
  by (simp add: newGate_def admit_def writePolicy_def toolName_def namedRequest_def textOf_def)

subsection \<open>A batch on the approval gate\<close>

text \<open>
  The decision callback is single-shot on the gate: once a call has been decided, a
  further decision on it changes nothing, so it cannot start the execution again.
\<close>

lemma gateDecide_again: "gateDecide i d' (gateDecide i d g) = gateDecide i d g"
  by (cases d) (simp_all add: gateDecide_def decided_def)











subsection \<open>The calculator tool\<close>

lemma isDigit_iff: "isDigit c \<longleftrightarrow> c \<in> set ''0123456789''"
proof
  assume digit: "isDigit c"
  define n :: nat where "n = of_char c"
  have "48 \<le> n \<and> n \<le> 57"
    using digit by (simp add: isDigit_def n_def)
  then have "n = 48 \<or> n = 49 \<or> n = 50 \<or> n = 51 \<or> n = 52 \<or> n = 53 \<or> n = 54 \<or> n = 55
      \<or> n = 56 \<or> n = 57"
    by arith
  then have "(of_char c :: nat) = of_char CHR ''0'' \<or> (of_char c :: nat) = of_char CHR ''1''
      \<or> (of_char c :: nat) = of_char CHR ''2'' \<or> (of_char c :: nat) = of_char CHR ''3''
      \<or> (of_char c :: nat) = of_char CHR ''4'' \<or> (of_char c :: nat) = of_char CHR ''5''
      \<or> (of_char c :: nat) = of_char CHR ''6'' \<or> (of_char c :: nat) = of_char CHR ''7''
      \<or> (of_char c :: nat) = of_char CHR ''8'' \<or> (of_char c :: nat) = of_char CHR ''9''"
    by (simp add: n_def)
  then have "c = CHR ''0'' \<or> c = CHR ''1'' \<or> c = CHR ''2'' \<or> c = CHR ''3'' \<or> c = CHR ''4''
      \<or> c = CHR ''5'' \<or> c = CHR ''6'' \<or> c = CHR ''7'' \<or> c = CHR ''8'' \<or> c = CHR ''9''"
    by (simp only: of_char_eq_iff)
  then show "c \<in> set ''0123456789''"
    by auto
next
  assume "c \<in> set ''0123456789''"
  then show "isDigit c" by (auto simp: isDigit_def)
qed

lemma allowedChar_iff:
  "allowedChar c \<longleftrightarrow> c \<in> set ''0123456789+-*/().'' \<or> isWhiteSpace c"
  by (auto simp: allowedChar_def isDigit_iff)

lemma filter_neq: "filter P xs \<noteq> xs \<longleftrightarrow> (\<exists>x \<in> set xs. \<not> P x)"
  by (simp add: filter_id_conv)

lemma evaluateExpression_rejects:
  assumes "\<exists>c \<in> set expr. \<not> allowedChar c"
  shows "evaluateExpression run (ExprStr expr) =
    (Inl (Error ''Invalid characters in expression''), [])"
  using assms by (simp add: filter_neq Let_def)

lemma evaluateExpression_accepts:
  assumes "\<forall>c \<in> set expr. allowedChar c"
  shows "evaluateExpression run (ExprStr expr) =
    (run (functionSource expr), [functionSource expr])"
proof -
  have "filter allowedChar expr = expr"
    using assms by (simp add: filter_id_conv)
  then show ?thesis by (simp add: Let_def)
qed

lemma execute_shown:
  assumes "showExpr e = Inr shown"
  shows "\<exists>result. fst (execute run (ParamsObject e)) = Inr result"
proof -
  obtain evaluated sources where ev: "evaluateExpression run e = (evaluated, sources)"
    by (cases "evaluateExpression run e")
  show ?thesis
    using assms ev by (cases evaluated) (simp_all add: execute_def)
qed

text \<open>
  C10 (as amended). For every argument that is not null or undefined and whose
  \<open>expression\<close> is a string, or another value that a template literal can render,
  \<open>execute\<close> does not raise and gives a tool result. An expression with a character that
  is not a digit, white space or one of \<open>+ - * / ( ) .\<close> gives the error text below and
  nothing is passed to the dynamic evaluation; a string expression is evaluated, once,
  only when all its characters are of that kind. \<open>shouldConfirmExecute\<close> is always false.
\<close>

theorem calculator_execute:
  "(showExpr e = Inr shown \<longrightarrow> (\<exists>result. fst (execute run (ParamsObject e)) = Inr result))
   \<and> ((\<exists>c \<in> set expr. c \<notin> set ''0123456789+-*/().'' \<and> \<not> isWhiteSpace c) \<longrightarrow>
        execute run (ParamsObject (ExprStr expr)) =
          (Inr \<lparr>llmContent =
                  ''Error calculating '' @ expr @ '': Invalid characters in expression'',
                returnDisplay = ''Error: Invalid characters in expression''\<rparr>, []))
   \<and> snd (execute run (ParamsObject (ExprStr expr))) =
        (if \<forall>c \<in> set expr. c \<in> set ''0123456789+-*/().'' \<or> isWhiteSpace c
         then [functionSource expr] else [])
   \<and> \<not> shouldConfirmExecute ps"
proof -
  have rejected: "execute run (ParamsObject (ExprStr expr)) =
          (Inr \<lparr>llmContent =
                  ''Error calculating '' @ expr @ '': Invalid characters in expression'',
                returnDisplay = ''Error: Invalid characters in expression''\<rparr>, [])"
    if "\<exists>c \<in> set expr. c \<notin> set ''0123456789+-*/().'' \<and> \<not> isWhiteSpace c"
  proof -
    from that have "\<exists>c \<in> set expr. \<not> allowedChar c"
      unfolding allowedChar_iff by blast
    then have "evaluateExpression run (ExprStr expr) =
        (Inl (Error ''Invalid characters in expression''), [])"
      by (rule evaluateExpression_rejects)
    then show ?thesis by (simp add: execute_def showExpr_def messageOf_def)
  qed
  have accepted: "snd (execute run (ParamsObject (ExprStr expr))) = [functionSource expr]"
    if "\<forall>c \<in> set expr. c \<in> set ''0123456789+-*/().'' \<or> isWhiteSpace c"
  proof -
    from that have "\<forall>c \<in> set expr. allowedChar c"
      unfolding allowedChar_iff by blast
    then have "evaluateExpression run (ExprStr expr) =
        (run (functionSource expr), [functionSource expr])"
      by (rule evaluateExpression_accepts)
    then show ?thesis
      by (cases "run (functionSource expr)") (simp_all add: execute_def showExpr_def)
  qed
  have sources: "snd (execute run (ParamsObject (ExprStr expr))) =
        (if \<forall>c \<in> set expr. c \<in> set ''0123456789+-*/().'' \<or> isWhiteSpace c
         then [functionSource expr] else [])"
  proof (cases "\<forall>c \<in> set expr. c \<in> set ''0123456789+-*/().'' \<or> isWhiteSpace c")
    case True
    then show ?thesis using accepted by simp
  next
    case False
    then have "\<exists>c \<in> set expr. c \<notin> set ''0123456789+-*/().'' \<and> \<not> isWhiteSpace c"
      by blast
    then show ?thesis using rejected False by simp
  qed
  show ?thesis
    using execute_shown [of e shown run] rejected sources
    by (simp add: shouldConfirmExecute_def)
qed

text \<open>
  C10 as stated fails: with \<open>undefined\<close> (or \<open>null\<close>) as argument the destructuring of
  line 211, which is outside the \<open>try\<close>, raises; and with an \<open>expression\<close> that is not a
  string and has no conversion to a string, the template literal in the \<open>catch\<close> block
  raises. In both cases no tool result is returned.
\<close>

theorem calculator_execute_counterexample:
  "fst (execute runFour ParamsNullish) =
     Inl (TypeError ''Cannot destructure property of undefined'')
   \<and> fst (execute runFour (ParamsObject (ExprOther None))) =
     Inl (TypeError ''Cannot convert object to primitive value'')"
  by (simp add: execute_def showExpr_def)

theorem calculator_execute_witness:
  "execute runFour (ParamsObject (ExprStr ''2+2; x'')) =
     (Inr \<lparr>llmContent = ''Error calculating 2+2; x: Invalid characters in expression'',
           returnDisplay = ''Error: Invalid characters in expression''\<rparr>, [])
   \<and> (\<exists>result. fst (execute runFour (ParamsObject (ExprOther (Some ''42'')))) = Inr result)
   \<and> snd (execute runFour (ParamsObject (ExprStr ''2 + 2''))) = [functionSource ''2 + 2'']"
proof -
  have bad: "\<exists>c \<in> set ''2+2; x''. c \<notin> set ''0123456789+-*/().'' \<and> \<not> isWhiteSpace c"
    by (simp add: isWhiteSpace_def)
  have good: "\<forall>c \<in> set ''2 + 2''. c \<in> set ''0123456789+-*/().'' \<or> isWhiteSpace c"
    by (simp add: isWhiteSpace_def)
  have shown: "showExpr (ExprOther (Some ''42'')) = Inr ''42''"
    by (simp add: showExpr_def)
  show ?thesis
    using calculator_execute [of "ExprOther (Some ''42'')" "''42''" runFour "''2+2; x''"]
      calculator_execute [of "ExprOther (Some ''42'')" "''42''" runFour "''2 + 2''"]
      bad good shown
    by simp
qed

subsection \<open>Exit codes\<close>








end
